theory Spec2Isabelle
  imports Main
begin

section \<open>Block-editor store selectors (packages/block-editor/src/store/selectors.ts)\<close>

subsection \<open>Data model\<close>

text \<open>
  A failing property access on \<open>undefined\<close> raises a JavaScript \<open>TypeError\<close>; every
  selector that can raise returns \<open>error + 'a\<close>, with \<open>Inl\<close> for the exception.
\<close>

datatype error = TypeError

text \<open>
  The block type of the registry. Its declaration is not part of the two source files;
  the spec gives it a \<open>supports\<close> record of boolean capability flags, of which the
  selectors read \<open>editable\<close> only.
\<close>

record BlockSupports =
  editable :: bool

record BlockType =
  supports :: BlockSupports

text \<open>
  A form block: \<open>id\<close> (written \<open>block_id\<close>, since \<open>id\<close> is the identity function of
  HOL), \<open>name\<close> (the name of its block type) and its type-specific attributes, which the
  selectors never inspect.
\<close>

record 'a FormBlock =
  block_id :: string
  name :: string
  attributes :: 'a

text \<open>\<open>BlockOrder\<close>: a number, a string or \<open>undefined\<close>.\<close>

datatype BlockOrder = Undefined | OrderNumber int | OrderString string

text \<open>\<open>FormBlockWithOrder\<close>: the object \<open>{ ...block, order }\<close>.\<close>

record 'a FormBlockWithOrder = "'a FormBlock" +
  order :: BlockOrder

text \<open>
  Objects are compared by identity in the memoisation of the selectors, so the model
  names them by an address. A cache token is an opaque object or \<open>undefined\<close>
  (\<open>None\<close>).
\<close>

type_synonym ref = nat

type_synonym token = "ref option"

text \<open>
  The editor state. \<open>blocks\<close> is the content of the array \<open>state.blocks\<close> and
  \<open>blocksRef\<close> the identity of that array object; \<open>cache\<close> is \<open>state.cache\<close>, which
  the selectors read through \<open>state?.cache?.[id]\<close> and which may therefore be absent
  as a whole.
\<close>

record 'a BlockEditorState =
  blocks :: "'a FormBlock list"
  blocksRef :: ref
  cache :: "(string \<rightharpoonup> ref) option"
  currentBlockId :: "string option"

text \<open>
  What \<open>select\<close> of the data framework gives the selectors:
  \<open>select('quillForms/blocks').getBlockTypes()\<close>, the object mapping a block name to
  its block type, and the current state of the store \<open>'quillForms/block-editor'\<close>, to
  which \<open>select('quillForms/block-editor')\<close> binds this module's selectors.
\<close>

record 'a DataRegistry =
  getBlockTypes :: "string \<rightharpoonup> BlockType"
  blockEditorState :: "'a BlockEditorState"

text \<open>
  Modelled from the spec: \<open>getBlockType\<close> of the package \<open>@quillforms/blocks\<close>, which
  is imported and not part of the source files. The spec gives the Block Registry Client
  the two accessors \<open>getBlockType(name)\<close> and \<open>getBlockTypes()\<close> over one registry.
\<close>

definition getBlockType :: "'a DataRegistry \<Rightarrow> string \<Rightarrow> BlockType option" where
  "getBlockType env blockName = getBlockTypes env blockName"

subsection \<open>Array helpers\<close>

text \<open>
  \<open>findIndex\<close> (of \<open>Array.prototype\<close> and of lodash): the index of the first element
  that satisfies the predicate, \<open>-1\<close> when there is none.
\<close>

fun findIndex :: "('a \<Rightarrow> bool) \<Rightarrow> 'a list \<Rightarrow> int" where
  "findIndex p [] = - 1"
| "findIndex p (x # xs) =
     (if p x then 0
      else (let i = findIndex p xs in if i < 0 then - 1 else i + 1))"

text \<open>
  \<open>Array.prototype.filter\<close> with a callback that may raise: the first exception
  leaves the loop.
\<close>

fun filterE :: "('a \<Rightarrow> error + bool) \<Rightarrow> 'a list \<Rightarrow> error + 'a list" where
  "filterE p [] = Inr []"
| "filterE p (x # xs) =
     (case p x of
        Inl e \<Rightarrow> Inl e
      | Inr keep \<Rightarrow>
          (case filterE p xs of
             Inl e \<Rightarrow> Inl e
           | Inr ys \<Rightarrow> Inr (if keep then x # ys else ys)))"

subsection \<open>Selectors\<close>

text \<open>
  \<open>getBlocks\<close>, \<open>getBlockById\<close> and \<open>getPreviousEditableFieldsWithOrder\<close> are built
  with \<open>createSelector\<close> of the package rememo. The definitions of this subsection are
  the selector functions handed to \<open>createSelector\<close>, that is, what a call computes
  when the memoisation holds no result for it. The selectors as the module exports them,
  which answer from the memoisation first, are the definitions with the suffix
  \<open>_exported\<close> in the subsection on the exported selectors below.
\<close>

definition getBlocks :: "'a BlockEditorState \<Rightarrow> 'a FormBlock list" where
  "getBlocks state = blocks state"

definition getWelcomeScreensLength :: "'a BlockEditorState \<Rightarrow> nat" where
  "getWelcomeScreensLength state =
     length (filter (\<lambda>block. name block = ''welcome-screen'') (blocks state))"

text \<open>
  The selector function of \<open>getBlockById\<close> (lines 62 to 66), the first argument of its
  \<open>createSelector\<close>; the selector as exported is \<open>getBlockById_exported\<close>.
\<close>

definition getBlockById :: "'a BlockEditorState \<Rightarrow> string \<Rightarrow> 'a FormBlock option" where
  "getBlockById state blockId = find (\<lambda>block. block_id block = blockId) (blocks state)"

definition getEditableFields ::
  "'a DataRegistry \<Rightarrow> 'a BlockEditorState \<Rightarrow> error + 'a FormBlock list" where
  "getEditableFields env state =
     (let blocks = getBlocks state in
      filterE
        (\<lambda>block.
           case getBlockTypes env (name block) of
             None \<Rightarrow> Inl TypeError
           | Some blockType \<Rightarrow> Inr (editable (supports blockType) = True))
        blocks)"

text \<open>
  \<open>identName\<close>. The array \<open>b\<close> grows while the loop runs: \<open>b[sp + 1] = div - 1\<close>
  appends when \<open>sp + 1\<close> is the length of \<open>b\<close> and overwrites when it is below
  (\<open>sp < b.length\<close> in the loop, so there is no third case). The quotient and the
  remainder are taken of a number above 25, where \<open>Math.floor(x / 26)\<close> and \<open>x % 26\<close>
  are \<open>div\<close> and \<open>mod\<close>.
\<close>

function identName_while :: "int list \<Rightarrow> nat \<Rightarrow> int list" where
  "identName_while b sp =
     (if sp < length b then
        (if b ! sp > 25 then
           (let d = b ! sp div 26;
                b1 = (if sp + 1 < length b then b[sp + 1 := d - 1] else b @ [d - 1]);
                b2 = b1[sp := b1 ! sp mod 26]
            in identName_while b2 (sp + 1))
         else identName_while b (sp + 1))
      else b)"
  by pat_completeness auto
termination
  by (relation "measures [\<lambda>(b, sp). length b - sp, \<lambda>(b, sp). nat (b ! sp)]")
     (auto simp: nth_append)

declare identName_while.simps [simp del]

definition charCode :: int where
  "charCode = 97"

text \<open>
  \<open>String.fromCharCode\<close> and \<open>toUpperCase\<close> on the code units below 256, which is
  where \<open>identName\<close> uses them: its argument is the result of a \<open>findIndex\<close>, so the
  code units are \<open>97 + d\<close> for a digit \<open>d\<close> from 0 to 25 (and 96 for the index \<open>-1\<close>).
\<close>

definition fromCharCode :: "int \<Rightarrow> char" where
  "fromCharCode c = char_of c"

definition toUpperCase_char :: "char \<Rightarrow> char" where
  "toUpperCase_char c =
     (let n = (of_char c :: int) in if 97 \<le> n \<and> n \<le> 122 then char_of (n - 32) else c)"

definition toUpperCase :: "string \<Rightarrow> string" where
  "toUpperCase s = map toUpperCase_char s"

definition identName :: "int \<Rightarrow> string" where
  "identName a =
     (let b = identName_while [a] 0;
          out = fold (\<lambda>d out. fromCharCode (charCode + d) # out) b []
      in toUpperCase out)"

definition getBlockOrderById ::
  "'a DataRegistry \<Rightarrow> 'a BlockEditorState \<Rightarrow> string \<Rightarrow> error + BlockOrder" where
  "getBlockOrderById env state i =
     (case getBlockById state i of
        None \<Rightarrow> Inr Undefined
      | Some formBlock \<Rightarrow>
          (let blockType = getBlockTypes env (name formBlock) in
           case getEditableFields env (blockEditorState env) of
             Inl e \<Rightarrow> Inl e
           | Inr editableFields \<Rightarrow>
               (case blockType of
                  None \<Rightarrow> Inl TypeError
                | Some bt \<Rightarrow>
                    if editable (supports bt) = True then
                      (let fieldIndex = findIndex (\<lambda>field. block_id field = i) editableFields
                       in Inr (OrderNumber (fieldIndex + 1)))
                    else
                      (let fieldIndex =
                             findIndex (\<lambda>block. block_id block = i)
                               (filter (\<lambda>block. name block = name formBlock) (blocks state))
                       in Inr (OrderString (identName fieldIndex))))))"

text \<open>The object literal \<open>{ ...block, order: ord }\<close>.\<close>

definition withOrder :: "'a FormBlock \<Rightarrow> BlockOrder \<Rightarrow> 'a FormBlockWithOrder" where
  "withOrder block ord =
     \<lparr>block_id = block_id block, name = name block, attributes = attributes block, order = ord\<rparr>"

text \<open>
  The loop of \<open>getPreviousEditableFieldsWithOrder\<close>: \<open>forEach\<close> over the blocks before
  the target, pushing onto \<open>prevEditableFields\<close>. The test
  \<open>blockType?.supports?.editable\<close> is false for an absent block type.
\<close>

fun forEach_prevFormBlocks ::
  "'a DataRegistry \<Rightarrow> 'a BlockEditorState \<Rightarrow> 'a FormBlock list \<Rightarrow>
   'a FormBlockWithOrder list \<Rightarrow> error + 'a FormBlockWithOrder list" where
  "forEach_prevFormBlocks env state [] prevEditableFields = Inr prevEditableFields"
| "forEach_prevFormBlocks env state (block # rest) prevEditableFields =
     (let blockType = getBlockType env (name block) in
      if (case blockType of None \<Rightarrow> False | Some bt \<Rightarrow> editable (supports bt)) then
        (case getBlockOrderById env state (block_id block) of
           Inl e \<Rightarrow> Inl e
         | Inr ord \<Rightarrow>
             forEach_prevFormBlocks env state rest (prevEditableFields @ [withOrder block ord]))
      else forEach_prevFormBlocks env state rest prevEditableFields)"

text \<open>
  The selector function of \<open>getPreviousEditableFieldsWithOrder\<close> (lines 201 to 220), the
  first argument of its \<open>createSelector\<close>, with the calls it makes computed afresh; the
  selector as exported is \<open>getPreviousEditableFieldsWithOrder_exported\<close>.
\<close>

definition getPreviousEditableFieldsWithOrder ::
  "'a DataRegistry \<Rightarrow> 'a BlockEditorState \<Rightarrow> string \<Rightarrow> error + 'a FormBlockWithOrder list" where
  "getPreviousEditableFieldsWithOrder env state i =
     (let prevEditableFields = [];
          blocks = getBlocks state;
          blockIndex = findIndex (\<lambda>block. block_id block = i) blocks
      in if blockIndex > 0 then
           forEach_prevFormBlocks env state (take (nat blockIndex) blocks) prevEditableFields
         else Inr prevEditableFields)"

definition getEditableFieldsLength :: "'a DataRegistry \<Rightarrow> 'a BlockEditorState \<Rightarrow> error + nat" where
  "getEditableFieldsLength env state =
     (case getEditableFields env state of
        Inl e \<Rightarrow> Inl e
      | Inr editableFields \<Rightarrow> Inr (length editableFields))"

definition getCurrentBlockId :: "'a BlockEditorState \<Rightarrow> string option" where
  "getCurrentBlockId state = currentBlockId state"

definition getCurrentBlockIndex :: "'a BlockEditorState \<Rightarrow> int" where
  "getCurrentBlockIndex state =
     findIndex (\<lambda>item. Some (block_id item) = currentBlockId state) (blocks state)"

definition getCurrentBlock :: "'a BlockEditorState \<Rightarrow> 'a FormBlock option" where
  "getCurrentBlock state =
     (let currentBlockIndex =
            findIndex (\<lambda>item. Some (block_id item) = currentBlockId state) (blocks state)
      in if currentBlockIndex \<noteq> - 1 then Some (blocks state ! nat currentBlockIndex) else None)"

subsection \<open>Memoisation\<close>

text \<open>
  Modelled from the spec: \<open>createSelector\<close> of the package rememo, which is imported and
  not part of the source files. The spec describes it as a memoisation that recomputes
  the derived value only when the declared dependency values change: the cache keeps the
  dependants of the last computation and its value, hands the value out again while the
  dependants of a call are the same (element by element, by identity), and recomputes
  otherwise. The cache is the state of the memoised selector; a call returns the value
  and the cache after it.
\<close>

type_synonym ('d, 'v) memo = "('d list \<times> 'v) option"

definition createSelector ::
  "('s \<Rightarrow> 'v) \<Rightarrow> ('s \<Rightarrow> 'd list) \<Rightarrow> ('d, 'v) memo \<Rightarrow> 's \<Rightarrow> 'v \<times> ('d, 'v) memo" where
  "createSelector selector getDependants memo state =
     (let dependants = getDependants state in
      case memo of
        None \<Rightarrow> (let v = selector state in (v, Some (dependants, v)))
      | Some (lastDependants, val) \<Rightarrow>
          if lastDependants = dependants then (val, memo)
          else (let v = selector state in (v, Some (dependants, v))))"

text \<open>
  The dependants of \<open>getBlocks\<close>:
  \<open>map( state.blocks, ( block ) => state?.cache?.[ block.id ] )\<close>.
\<close>

definition blockCacheTokens :: "'a BlockEditorState \<Rightarrow> token list" where
  "blockCacheTokens state =
     map (\<lambda>block. case cache state of None \<Rightarrow> None | Some c \<Rightarrow> c (block_id block))
       (blocks state)"

text \<open>
  The exported \<open>getBlocks\<close>: \<open>createSelector\<close> around \<open>return state.blocks\<close>, which
  returns the array object itself, here its address.
\<close>

definition getBlocks_memoized ::
  "(token, ref) memo \<Rightarrow> 'a BlockEditorState \<Rightarrow> ref \<times> (token, ref) memo" where
  "getBlocks_memoized = createSelector (\<lambda>state. blocksRef state) blockCacheTokens"

subsection \<open>The exported selectors\<close>

text \<open>
  Modelled from the spec: \<open>createSelector\<close> for a selector with an argument besides the
  state (\<open>getBlockById\<close> and \<open>getPreviousEditableFieldsWithOrder\<close> take the block id).
  The results are kept by argument for as long as the dependants of the calls stay the
  same; a call with other dependants drops them. The comparison of a call with the
  kept results looks at the dependants and at the argument, never at the state.
\<close>

type_synonym ('d, 'k, 'v) memoArgs = "('d list \<times> ('k \<rightharpoonup> 'v)) option"

definition keptResults :: "('d, 'k, 'v) memoArgs \<Rightarrow> 'd list \<Rightarrow> ('k \<rightharpoonup> 'v)" where
  "keptResults memo dependants =
     (case memo of
        None \<Rightarrow> Map.empty
      | Some (lastDependants, results) \<Rightarrow>
          if lastDependants = dependants then results else Map.empty)"

definition createSelectorArgs ::
  "('s \<Rightarrow> 'k \<Rightarrow> 'v) \<Rightarrow> ('s \<Rightarrow> 'k \<Rightarrow> 'd list) \<Rightarrow> ('d, 'k, 'v) memoArgs \<Rightarrow> 's \<Rightarrow> 'k \<Rightarrow>
   'v \<times> ('d, 'k, 'v) memoArgs" where
  "createSelectorArgs selector getDependants memo state arg =
     (let dependants = getDependants state arg;
          kept = keptResults memo dependants
      in case kept arg of
           Some val \<Rightarrow> (val, Some (dependants, kept))
         | None \<Rightarrow> (let v = selector state arg in (v, Some (dependants, kept(arg \<mapsto> v)))))"

text \<open>
  The memoisations of the module: one for each selector built with \<open>createSelector\<close>.
  They are the state the exported selectors read and write; every exported selector
  returns its result and the memoisations after the call.
\<close>

record 'a Memos =
  getBlocksMemo :: "(token, 'a FormBlock list) memo"
  getBlockByIdMemo :: "(token, string, 'a FormBlock option) memoArgs"
  getPreviousMemo :: "(token, string, 'a FormBlockWithOrder list) memoArgs"

text \<open>
  The exported \<open>getBlocks\<close> (lines 33 to 39), with the content of the array it returns
  (\<open>getBlocks_memoized\<close> above gives the address of the same array).
\<close>

definition getBlocks_exported ::
  "'a Memos \<Rightarrow> 'a BlockEditorState \<Rightarrow> 'a FormBlock list \<times> 'a Memos" where
  "getBlocks_exported memos state =
     (let (result, memo) = createSelector getBlocks blockCacheTokens (getBlocksMemo memos) state
      in (result, memos\<lparr>getBlocksMemo := memo\<rparr>))"

text \<open>
  The exported \<open>getBlockById\<close> (lines 61 to 75): the dependants are
  \<open>[ state?.cache?.[ blockId ] ]\<close>.
\<close>

definition blockCacheToken :: "'a BlockEditorState \<Rightarrow> string \<Rightarrow> token list" where
  "blockCacheToken state blockId =
     [case cache state of None \<Rightarrow> None | Some c \<Rightarrow> c blockId]"

definition getBlockById_exported ::
  "'a Memos \<Rightarrow> 'a BlockEditorState \<Rightarrow> string \<Rightarrow> 'a FormBlock option \<times> 'a Memos" where
  "getBlockById_exported memos state blockId =
     (let (result, memo) =
            createSelectorArgs getBlockById blockCacheToken (getBlockByIdMemo memos) state blockId
      in (result, memos\<lparr>getBlockByIdMemo := memo\<rparr>))"

text \<open>
  \<open>getEditableFields\<close> and \<open>getBlockOrderById\<close> as exported: the functions above, with
  their calls of \<open>getBlocks\<close> and \<open>getBlockById\<close> going through the memoisations.
\<close>

definition getEditableFields_exported ::
  "'a DataRegistry \<Rightarrow> 'a Memos \<Rightarrow> 'a BlockEditorState \<Rightarrow>
   (error + 'a FormBlock list) \<times> 'a Memos" where
  "getEditableFields_exported env memos state =
     (let (blocks, memos1) = getBlocks_exported memos state
      in (filterE
            (\<lambda>block.
               case getBlockTypes env (name block) of
                 None \<Rightarrow> Inl TypeError
               | Some blockType \<Rightarrow> Inr (editable (supports blockType) = True))
            blocks,
          memos1))"

definition getBlockOrderById_exported ::
  "'a DataRegistry \<Rightarrow> 'a Memos \<Rightarrow> 'a BlockEditorState \<Rightarrow> string \<Rightarrow>
   (error + BlockOrder) \<times> 'a Memos" where
  "getBlockOrderById_exported env memos state i =
     (let (found, memos1) = getBlockById_exported memos state i
      in case found of
           None \<Rightarrow> (Inr Undefined, memos1)
         | Some formBlock \<Rightarrow>
             (let blockType = getBlockTypes env (name formBlock);
                  (fieldsResult, memos2) =
                    getEditableFields_exported env memos1 (blockEditorState env)
              in case fieldsResult of
                   Inl e \<Rightarrow> (Inl e, memos2)
                 | Inr editableFields \<Rightarrow>
                     (case blockType of
                        None \<Rightarrow> (Inl TypeError, memos2)
                      | Some bt \<Rightarrow>
                          if editable (supports bt) = True then
                            (let fieldIndex =
                                   findIndex (\<lambda>field. block_id field = i) editableFields
                             in (Inr (OrderNumber (fieldIndex + 1)), memos2))
                          else
                            (let fieldIndex =
                                   findIndex (\<lambda>block. block_id block = i)
                                     (filter (\<lambda>block. name block = name formBlock)
                                        (blocks state))
                             in (Inr (OrderString (identName fieldIndex)), memos2)))))"

text \<open>
  The exported \<open>getPreviousEditableFieldsWithOrder\<close> (lines 200 to 223): the loop and
  the selector function with their calls going through the memoisations, and around
  them the memoisation of the selector itself, on the cache tokens of all blocks and
  the id. A call that raises leaves no result behind.
\<close>

fun forEach_prevFormBlocks_exported ::
  "'a DataRegistry \<Rightarrow> 'a Memos \<Rightarrow> 'a BlockEditorState \<Rightarrow> 'a FormBlock list \<Rightarrow>
   'a FormBlockWithOrder list \<Rightarrow> (error + 'a FormBlockWithOrder list) \<times> 'a Memos" where
  "forEach_prevFormBlocks_exported env memos state [] prevEditableFields =
     (Inr prevEditableFields, memos)"
| "forEach_prevFormBlocks_exported env memos state (block # rest) prevEditableFields =
     (let blockType = getBlockType env (name block) in
      if (case blockType of None \<Rightarrow> False | Some bt \<Rightarrow> editable (supports bt)) then
        (case getBlockOrderById_exported env memos state (block_id block) of
           (Inl e, memos1) \<Rightarrow> (Inl e, memos1)
         | (Inr ord, memos1) \<Rightarrow>
             forEach_prevFormBlocks_exported env memos1 state rest
               (prevEditableFields @ [withOrder block ord]))
      else forEach_prevFormBlocks_exported env memos state rest prevEditableFields)"

definition previousEditableFields_selector ::
  "'a DataRegistry \<Rightarrow> 'a Memos \<Rightarrow> 'a BlockEditorState \<Rightarrow> string \<Rightarrow>
   (error + 'a FormBlockWithOrder list) \<times> 'a Memos" where
  "previousEditableFields_selector env memos state i =
     (let prevEditableFields = [];
          (blocks, memos1) = getBlocks_exported memos state;
          blockIndex = findIndex (\<lambda>block. block_id block = i) blocks
      in if blockIndex > 0 then
           forEach_prevFormBlocks_exported env memos1 state (take (nat blockIndex) blocks)
             prevEditableFields
         else (Inr prevEditableFields, memos1))"

definition getPreviousEditableFieldsWithOrder_exported ::
  "'a DataRegistry \<Rightarrow> 'a Memos \<Rightarrow> 'a BlockEditorState \<Rightarrow> string \<Rightarrow>
   (error + 'a FormBlockWithOrder list) \<times> 'a Memos" where
  "getPreviousEditableFieldsWithOrder_exported env memos state i =
     (let dependants = blockCacheTokens state;
          kept = keptResults (getPreviousMemo memos) dependants
      in case kept i of
           Some val \<Rightarrow> (Inr val, memos\<lparr>getPreviousMemo := Some (dependants, kept)\<rparr>)
         | None \<Rightarrow>
             (case previousEditableFields_selector env memos state i of
                (Inl e, memos1) \<Rightarrow>
                  (Inl e, memos1\<lparr>getPreviousMemo := Some (dependants, kept)\<rparr>)
              | (Inr v, memos1) \<Rightarrow>
                  (Inr v, memos1\<lparr>getPreviousMemo := Some (dependants, kept(i \<mapsto> v))\<rparr>)))"

text \<open>The memoisations of a module that has answered no call yet.\<close>

definition emptyMemos :: "'a Memos" where
  "emptyMemos = \<lparr>getBlocksMemo = None, getBlockByIdMemo = None, getPreviousMemo = None\<rparr>"

section \<open>Rich-text element renderer (packages/rich-text/src/components/element/index.tsx)\<close>

text \<open>
  A content node: its \<open>type\<close> tag and, for a link, its \<open>url\<close> (\<open>None\<close> when the node
  has no such attribute).
\<close>

record SlateElement =
  type :: string
  url :: "string option"

text \<open>
  What the component returns: \<open><MergeTagComponent element mergeTags editor path
  attributes children />\<close>, \<open><a {...attributes} href>children</a>\<close> or
  \<open><p {...attributes}>children</p>\<close>. The \<open>children\<close> handed to the merge-tag
  component may be \<open>null\<close> (\<open>None\<close>).
\<close>

datatype ('at, 'ch, 'ed, 'mt) rendered =
    MergeTagComponent SlateElement 'mt 'ed "nat list" 'at "'ch option"
  | Anchor 'at "string option" 'ch
  | Paragraph 'at 'ch

text \<open>
  \<open>Element\<close>. \<open>ReactEditor.findPath\<close> belongs to slate-react and is a parameter, with
  the signature the spec gives it (editor and node to structural path). The second
  component of the result lists the invocations of \<open>findPath\<close> made by the call, in
  order, each with its arguments.
\<close>

definition Element ::
  "('ed \<Rightarrow> SlateElement \<Rightarrow> nat list) \<Rightarrow> 'at \<Rightarrow> 'ch \<Rightarrow> SlateElement \<Rightarrow> 'ed \<Rightarrow> 'mt \<Rightarrow>
   ('at, 'ch, 'ed, 'mt) rendered \<times> ('ed \<times> SlateElement) list" where
  "Element findPath attributes' children element editor mergeTags =
     (let path = findPath editor element;
          findPathCalls = [(editor, element)]
      in if type element = ''mergeTag'' then
           (MergeTagComponent element mergeTags editor path attributes' None, findPathCalls)
         else if type element = ''link'' then
           (Anchor attributes' (url element) children, findPathCalls)
         else (Paragraph attributes' children, findPathCalls))"

section \<open>Specification-side notions\<close>

text \<open>
  An editable field is a block whose block type has \<open>supports.editable === true\<close>; a
  block with no registered type is none.
\<close>

definition editableField :: "'a DataRegistry \<Rightarrow> 'a FormBlock \<Rightarrow> bool" where
  "editableField env block =
     (case getBlockTypes env (name block) of
        None \<Rightarrow> False
      | Some blockType \<Rightarrow> editable (supports blockType) = True)"

text \<open>Every block name of a list has an entry in the registry.\<close>

definition allRegistered :: "'a DataRegistry \<Rightarrow> 'a FormBlock list \<Rightarrow> bool" where
  "allRegistered env bs = list_all (\<lambda>block. getBlockTypes env (name block) \<noteq> None) bs"

text \<open>
  The bijective base-26 numeral of the spec, written from its words: the digits are the
  letters A to Z with the values 1 to 26, there is no digit zero, and the numeral of
  \<open>n\<close> is the numeral of \<open>(n - 1) div 26\<close> followed by the letter of value
  \<open>(n - 1) mod 26 + 1\<close>. \<open>bijective26_value\<close> reads a numeral back.
\<close>

definition letters :: string where
  "letters = ''ABCDEFGHIJKLMNOPQRSTUVWXYZ''"

function bijective26 :: "nat \<Rightarrow> string" where
  "bijective26 n =
     (if n = 0 then []
      else bijective26 ((n - 1) div 26) @ [letters ! ((n - 1) mod 26)])"
  by pat_completeness auto
termination
  by (relation "measure (\<lambda>n. n)") auto

declare bijective26.simps [simp del]

definition letterValue :: "char \<Rightarrow> nat" where
  "letterValue c = of_char c - 64"

definition bijective26_value :: "string \<Rightarrow> nat" where
  "bijective26_value s = foldl (\<lambda>acc c. 26 * acc + letterValue c) 0 s"

text \<open>
  The digits \<open>identName\<close> leaves in its array, least significant first, as a recursion
  on the number; \<open>identName_while_digits\<close> below relates the loop to it.
\<close>

function identDigits :: "int \<Rightarrow> int list" where
  "identDigits a = (if a > 25 then (a mod 26) # identDigits (a div 26 - 1) else [a])"
  by pat_completeness auto
termination
  by (relation "measure nat") auto

declare identDigits.simps [simp del]

text \<open>
  The memoisations hold no stale result for a registry and a state: whatever they would
  hand out under the cache tokens of the state is what the selector function computes
  on the state. The memoisations of a fresh module are of this kind, and so are those
  left by calls on this registry and state (\<open>memosValid_empty\<close> and the
  \<open>_exported_valid\<close> lemmas below).
\<close>

definition memosValid :: "'a DataRegistry \<Rightarrow> 'a BlockEditorState \<Rightarrow> 'a Memos \<Rightarrow> bool" where
  "memosValid env state memos =
     ((case getBlocksMemo memos of
         None \<Rightarrow> True
       | Some (dependants, val) \<Rightarrow>
           dependants = blockCacheTokens state \<longrightarrow> val = getBlocks state) \<and>
      (\<forall>blockId val.
         keptResults (getBlockByIdMemo memos) (blockCacheToken state blockId) blockId = Some val \<longrightarrow>
         val = getBlockById state blockId) \<and>
      (\<forall>i val.
         keptResults (getPreviousMemo memos) (blockCacheTokens state) i = Some val \<longrightarrow>
         getPreviousEditableFieldsWithOrder env state i = Inr val))"

section \<open>Example data\<close>

text \<open>
  A registry with an editable type \<open>short-text\<close> and a non-editable type \<open>group\<close>;
  any other name, such as \<open>ghost\<close> below, is unregistered.
\<close>

definition exampleTypes :: "string \<rightharpoonup> BlockType" where
  "exampleTypes =
     [''short-text'' \<mapsto> \<lparr>supports = \<lparr>editable = True\<rparr>\<rparr>,
      ''group'' \<mapsto> \<lparr>supports = \<lparr>editable = False\<rparr>\<rparr>]"

definition exampleBlock :: "string \<Rightarrow> string \<Rightarrow> unit FormBlock" where
  "exampleBlock i n = \<lparr>block_id = i, name = n, attributes = ()\<rparr>"

definition exampleState :: "unit FormBlock list \<Rightarrow> unit BlockEditorState" where
  "exampleState bs = \<lparr>blocks = bs, blocksRef = 0, cache = None, currentBlockId = None\<rparr>"

definition exampleEnv :: "unit FormBlock list \<Rightarrow> unit DataRegistry" where
  "exampleEnv bs = \<lparr>getBlockTypes = exampleTypes, blockEditorState = exampleState bs\<rparr>"


definition exampleFindPath :: "unit \<Rightarrow> SlateElement \<Rightarrow> nat list" where
  "exampleFindPath editor element = [0]"

text \<open>The blocks A (editable), B (not editable), C (editable) and then D (editable).\<close>

definition exampleABC :: "unit FormBlock list" where
  "exampleABC =
     [exampleBlock ''A'' ''short-text'', exampleBlock ''B'' ''group'',
      exampleBlock ''C'' ''short-text'']"

definition exampleABCD :: "unit FormBlock list" where
  "exampleABCD = exampleABC @ [exampleBlock ''D'' ''short-text'']"
text \<open>
  A state whose cache holds the token 3 for the id A, and the registry over it; an
  empty registry over a state.
\<close>

definition exampleCachedState :: "unit FormBlock list \<Rightarrow> unit BlockEditorState" where
  "exampleCachedState bs =
     \<lparr>blocks = bs, blocksRef = 0, cache = Some [''A'' \<mapsto> 3], currentBlockId = None\<rparr>"

definition exampleCachedEnv :: "unit FormBlock list \<Rightarrow> unit DataRegistry" where
  "exampleCachedEnv bs = \<lparr>getBlockTypes = exampleTypes, blockEditorState = exampleCachedState bs\<rparr>"

definition exampleEmptyRegistry :: "unit FormBlock list \<Rightarrow> unit DataRegistry" where
  "exampleEmptyRegistry bs = \<lparr>getBlockTypes = Map.empty, blockEditorState = exampleState bs\<rparr>"

section \<open>Lemmas\<close>

subsection \<open>Arrays\<close>

lemma error_is_TypeError: "(e :: error) = TypeError"
  by (cases e) simp

lemma findIndex_lower: "- 1 \<le> findIndex p xs"
  by (induction xs) (auto simp: Let_def)

lemma findIndex_none: "(findIndex p xs = - 1) = (\<forall>x \<in> set xs. \<not> p x)"
proof (induction xs)
  case Nil
  show ?case by simp
next
  case (Cons x xs)
  have "- 1 \<le> findIndex p xs" by (rule findIndex_lower)
  with Cons show ?case by (auto simp: Let_def)
qed

lemma findIndex_takeWhile:
  "\<exists>x \<in> set xs. p x \<Longrightarrow> findIndex p xs = int (length (takeWhile (\<lambda>x. \<not> p x) xs))"
proof (induction xs)
  case Nil
  then show ?case by simp
next
  case (Cons x xs)
  show ?case
  proof (cases "p x")
    case True
    then show ?thesis by simp
  next
    case False
    with Cons.prems have ex: "\<exists>y \<in> set xs. p y" by auto
    from Cons.IH [OF ex] False show ?thesis by (simp add: Let_def)
  qed
qed

lemma find_absent: "i \<notin> f ` set xs \<Longrightarrow> find (\<lambda>x. f x = i) xs = None"
  by (auto simp: find_None_iff)

lemma findIndex_absent: "i \<notin> f ` set xs \<Longrightarrow> findIndex (\<lambda>x. f x = i) xs = - 1"
  by (auto simp: findIndex_none)

lemma find_in_set: "find p xs = Some y \<Longrightarrow> y \<in> set xs \<and> p y"
  by (induction xs) (auto split: if_splits)

lemma find_present: "i \<in> f ` set xs \<Longrightarrow> \<exists>y. find (\<lambda>x. f x = i) xs = Some y"
  by (cases "find (\<lambda>x. f x = i) xs") (auto simp: find_None_iff)

lemma takeWhile_filter_first:
  "find p xs = Some y \<Longrightarrow> q y \<Longrightarrow>
   takeWhile (\<lambda>x. \<not> p x) (filter q xs) = filter q (takeWhile (\<lambda>x. \<not> p x) xs)"
  by (induction xs) (auto split: if_splits)



lemma filterE_total:
  "list_all (\<lambda>x. \<exists>k. p x = Inr k) xs \<Longrightarrow> filterE p xs = Inr (filter (\<lambda>x. p x = Inr True) xs)"
  by (induction xs) auto

lemma filterE_raises:
  "\<exists>x \<in> set xs. p x = Inl TypeError \<Longrightarrow> filterE p xs = Inl TypeError"
proof (induction xs)
  case Nil
  then show ?case by simp
next
  case (Cons x xs)
  show ?case
  proof (cases "p x")
    case (Inl e)
    then show ?thesis by (simp add: error_is_TypeError [of e])
  next
    case (Inr k)
    with Cons.prems have "\<exists>y \<in> set xs. p y = Inl TypeError" by auto
    from Cons.IH [OF this] Inr show ?thesis by simp
  qed
qed

subsection \<open>The editable fields\<close>

lemma getEditableFields_registered:
  assumes "allRegistered env (blocks state)"
  shows "getEditableFields env state = Inr (filter (editableField env) (blocks state))"
proof -
  let ?p = "\<lambda>block. case getBlockTypes env (name block) of
             None \<Rightarrow> Inl TypeError
           | Some blockType \<Rightarrow> Inr (editable (supports blockType) = True)"
  have tot: "list_all (\<lambda>x. \<exists>k. ?p x = Inr k) (blocks state)"
    using assms by (auto simp: allRegistered_def list_all_iff)
  have same: "filter (\<lambda>x. ?p x = Inr True) (blocks state) = filter (editableField env) (blocks state)"
    by (rule filter_cong) (auto simp: editableField_def split: option.splits)
  show ?thesis
    unfolding getEditableFields_def getBlocks_def Let_def
    using filterE_total [OF tot] same by simp
qed

lemma getEditableFields_unregistered:
  assumes "block \<in> set (blocks state)" and "getBlockTypes env (name block) = None"
  shows "getEditableFields env state = Inl TypeError"
  unfolding getEditableFields_def getBlocks_def Let_def
  by (rule filterE_raises) (use assms in \<open>auto intro!: bexI [of _ block]\<close>)

subsection \<open>The ident label is the bijective base-26 numeral\<close>

lemma letters_table:
  "\<forall>k \<in> set [0..<26]. char_of (65 + int k) = letters ! k \<and> letterValue (letters ! k) = k + 1"
  by code_simp

lemma letters_nth: "k < 26 \<Longrightarrow> char_of (65 + int k) = letters ! k"
  using letters_table by simp

lemma letterValue_nth: "k < 26 \<Longrightarrow> letterValue (letters ! k) = k + 1"
  using letters_table by simp

lemma upper_letter:
  assumes "0 \<le> d" and "d \<le> 25"
  shows "toUpperCase_char (fromCharCode (charCode + d)) = letters ! nat d"
proof -
  have "of_char (char_of (97 + d) :: char) = (97 + d) mod 256"
    by simp
  also have "\<dots> = 97 + d" using assms by simp
  finally have oc: "(of_char (char_of (97 + d) :: char) :: int) = 97 + d" .
  have "toUpperCase_char (fromCharCode (charCode + d)) = char_of (65 + d)"
    using assms by (simp add: toUpperCase_char_def fromCharCode_def charCode_def oc Let_def)
  also have "\<dots> = char_of (65 + int (nat d))" using assms by simp
  also have "\<dots> = letters ! nat d" using assms by (intro letters_nth) simp
  finally show ?thesis .
qed

lemma identName_while_digits:
  "identName_while (ds @ [a]) (length ds) = ds @ identDigits a"
proof (induction a arbitrary: ds rule: identDigits.induct)
  case (1 a)
  show ?case
  proof (cases "a > 25")
    case True
    have step: "identName_while (ds @ [a]) (length ds) =
                identName_while ((ds @ [a mod 26]) @ [a div 26 - 1]) (length (ds @ [a mod 26]))"
      by (subst identName_while.simps) (simp add: True Let_def nth_append list_update_append)
    show ?thesis
      unfolding step "1.IH" [OF True]
      by (subst (2) identDigits.simps) (simp add: True)
  next
    case False
    have "identName_while (ds @ [a]) (length ds) = identName_while (ds @ [a]) (length ds + 1)"
      by (subst identName_while.simps) (simp add: False)
    also have "\<dots> = ds @ [a]"
      by (subst identName_while.simps) simp
    finally show ?thesis
      by (subst identDigits.simps) (simp add: False)
  qed
qed

lemma identDigits_range: "0 \<le> a \<Longrightarrow> \<forall>d \<in> set (identDigits a). 0 \<le> d \<and> d \<le> 25"
proof (induction a rule: identDigits.induct)
  case (1 a)
  show ?case
  proof (cases "a > 25")
    case True
    then have "0 \<le> a div 26 - 1" by simp
    from "1.IH" [OF True this] "1.prems" True show ?thesis
      by (subst identDigits.simps) simp
  next
    case False
    with "1.prems" show ?thesis by (subst identDigits.simps) simp
  qed
qed

lemma fold_cons_rev: "fold (\<lambda>d out. f d # out) b acc = rev (map f b) @ acc"
  by (induction b arbitrary: acc) auto

lemma identName_digits:
  assumes "0 \<le> a"
  shows "identName a = rev (map (\<lambda>d. letters ! nat d) (identDigits a))"
proof -
  have w: "identName_while [a] 0 = identDigits a"
    using identName_while_digits [of "[]" a] by simp
  have "map (\<lambda>d. toUpperCase_char (fromCharCode (charCode + d))) (identDigits a) =
        map (\<lambda>d. letters ! nat d) (identDigits a)"
    using identDigits_range [OF assms] by (intro map_cong) (auto simp: upper_letter)
  then show ?thesis
    by (simp add: identName_def w fold_cons_rev toUpperCase_def rev_map [symmetric] comp_def)
qed

lemma bijective26_digits:
  "bijective26 (k + 1) = rev (map (\<lambda>d. letters ! nat d) (identDigits (int k)))"
proof (induction k rule: less_induct)
  case (less k)
  show ?case
  proof (cases "k > 25")
    case True
    define q where "q = k div 26 - 1"
    have q: "k div 26 = q + 1" and "q < k" using True by (auto simp: q_def)
    have iq: "int k div 26 - 1 = int q" using True by (simp add: q_def zdiv_int)
    have ik: "int k mod 26 = int (k mod 26)" by (simp add: zmod_int)
    have "bijective26 (k + 1) = bijective26 (q + 1) @ [letters ! (k mod 26)]"
      by (subst bijective26.simps) (simp add: q)
    also have "\<dots> = rev (map (\<lambda>d. letters ! nat d) (identDigits (int q))) @ [letters ! (k mod 26)]"
      using less.IH [OF \<open>q < k\<close>] by simp
    also have "\<dots> = rev (map (\<lambda>d. letters ! nat d) (identDigits (int k)))"
      by (subst (2) identDigits.simps) (simp add: True iq ik)
    finally show ?thesis .
  next
    case False
    then have "k div 26 = 0" by simp
    then have "bijective26 (k + 1) = [letters ! k]"
      using False by (subst bijective26.simps) (simp add: bijective26.simps [of 0])
    then show ?thesis using False by (subst identDigits.simps) simp
  qed
qed

lemma identName_bijective26: "identName (int k) = bijective26 (k + 1)"
proof -
  have "identName (int k) = rev (map (\<lambda>d. letters ! nat d) (identDigits (int k)))"
    by (rule identName_digits) simp
  then show ?thesis by (simp only: bijective26_digits)
qed

text \<open>
  \<open>bijective26\<close> is the bijective numeration: its numerals are words over the letters,
  and the numeral of \<open>n\<close> has the value \<open>n\<close>.
\<close>

lemma bijective26_letters: "set (bijective26 n) \<subseteq> set letters"
proof (induction n rule: bijective26.induct)
  case (1 n)
  show ?case
  proof (cases "n = 0")
    case True
    then show ?thesis by (subst bijective26.simps) simp
  next
    case False
    have "(n - 1) mod 26 < length letters" by (simp add: letters_def)
    then have "letters ! ((n - 1) mod 26) \<in> set letters" by (rule nth_mem)
    with "1.IH" [OF False] False show ?thesis by (subst bijective26.simps) simp
  qed
qed

lemma bijective26_value_snoc:
  "bijective26_value (s @ [c]) = 26 * bijective26_value s + letterValue c"
  by (simp add: bijective26_value_def)

lemma bijective26_value_inverse: "bijective26_value (bijective26 n) = n"
proof (induction n rule: bijective26.induct)
  case (1 n)
  show ?case
  proof (cases "n = 0")
    case True
    then show ?thesis by (subst bijective26.simps) (simp add: bijective26_value_def)
  next
    case False
    have "bijective26_value (bijective26 n) =
          26 * ((n - 1) div 26) + letterValue (letters ! ((n - 1) mod 26))"
      using "1.IH" [OF False] False
      by (subst bijective26.simps) (simp add: bijective26_value_snoc)
    also have "\<dots> = 26 * ((n - 1) div 26) + ((n - 1) mod 26 + 1)"
      by (simp add: letterValue_nth)
    also have "\<dots> = n" using False by simp
    finally show ?thesis .
  qed
qed

subsection \<open>The order of a block\<close>

lemma getBlockOrderById_editable:
  assumes st: "blockEditorState env = state"
    and reg: "allRegistered env (blocks state)"
    and fb: "getBlockById state i = Some formBlock"
    and ed: "editableField env formBlock"
  shows "getBlockOrderById env state i =
         Inr (OrderNumber (1 + int (length (takeWhile (\<lambda>field. block_id field \<noteq> i)
                (filter (editableField env) (blocks state))))))"
proof -
  let ?fs = "filter (editableField env) (blocks state)"
  from fb have f: "find (\<lambda>block. block_id block = i) (blocks state) = Some formBlock"
    by (simp add: getBlockById_def)
  from ed obtain bt where bt: "getBlockTypes env (name formBlock) = Some bt"
    and e: "editable (supports bt)"
    by (auto simp: editableField_def split: option.splits)
  from f have "formBlock \<in> set (blocks state)" and "block_id formBlock = i"
    using find_in_set [OF f] by simp_all
  with ed have "\<exists>x \<in> set ?fs. block_id x = i"
    by auto
  then have "findIndex (\<lambda>field. block_id field = i) ?fs =
             int (length (takeWhile (\<lambda>field. block_id field \<noteq> i) ?fs))"
    by (rule findIndex_takeWhile)
  then show ?thesis
    by (simp add: getBlockOrderById_def fb st getEditableFields_registered [OF reg] bt e)
qed

lemma getBlockOrderById_not_editable:
  assumes st: "blockEditorState env = state"
    and reg: "allRegistered env (blocks state)"
    and fb: "getBlockById state i = Some formBlock"
    and ne: "\<not> editableField env formBlock"
  shows "getBlockOrderById env state i =
         Inr (OrderString (bijective26 (1 + length
           (filter (\<lambda>block. name block = name formBlock)
              (takeWhile (\<lambda>block. block_id block \<noteq> i) (blocks state))))))"
proof -
  let ?same = "\<lambda>block. name block = name formBlock"
  from fb have f: "find (\<lambda>block. block_id block = i) (blocks state) = Some formBlock"
    by (simp add: getBlockById_def)
  then have mem: "formBlock \<in> set (blocks state)" and idf: "block_id formBlock = i"
    by (auto dest: find_in_set)
  from reg mem obtain bt where bt: "getBlockTypes env (name formBlock) = Some bt"
    by (auto simp: allRegistered_def list_all_iff)
  with ne have e: "\<not> editable (supports bt)"
    by (simp add: editableField_def)
  have "\<exists>x \<in> set (filter ?same (blocks state)). block_id x = i"
    using mem idf by auto
  then have "findIndex (\<lambda>block. block_id block = i) (filter ?same (blocks state)) =
             int (length (takeWhile (\<lambda>block. block_id block \<noteq> i) (filter ?same (blocks state))))"
    by (rule findIndex_takeWhile)
  also have "takeWhile (\<lambda>block. block_id block \<noteq> i) (filter ?same (blocks state)) =
             filter ?same (takeWhile (\<lambda>block. block_id block \<noteq> i) (blocks state))"
    using f by (rule takeWhile_filter_first) simp
  finally have idx: "findIndex (\<lambda>block. block_id block = i) (filter ?same (blocks state)) =
      int (length (filter ?same (takeWhile (\<lambda>block. block_id block \<noteq> i) (blocks state))))" .
  show ?thesis
    by (simp add: getBlockOrderById_def fb st getEditableFields_registered [OF reg] bt e idx
        identName_bijective26)
qed

lemma getBlockOrderById_unregistered:
  assumes "blockEditorState env = state"
    and "block \<in> set (blocks state)" and "getBlockTypes env (name block) = None"
    and "i \<in> block_id ` set (blocks state)"
  shows "getBlockOrderById env state i = Inl TypeError"
proof -
  from find_present [OF assms(4)] obtain fb where "getBlockById state i = Some fb"
    unfolding getBlockById_def by blast
  then show ?thesis
    by (simp add: getBlockOrderById_def assms(1) getEditableFields_unregistered [OF assms(2,3)])
qed

lemma getBlockOrderById_returns:
  assumes st: "blockEditorState env = state"
    and reg: "allRegistered env (blocks state)"
    and present: "i \<in> block_id ` set (blocks state)"
  shows "\<exists>ord. getBlockOrderById env state i = Inr ord"
proof -
  from find_present [OF present] obtain fb where fb: "getBlockById state i = Some fb"
    unfolding getBlockById_def by blast
  show ?thesis
  proof (cases "editableField env fb")
    case True
    from getBlockOrderById_editable [OF st reg fb True] show ?thesis by blast
  next
    case False
    from getBlockOrderById_not_editable [OF st reg fb False] show ?thesis by blast
  qed
qed

subsection \<open>The loop over the previous blocks\<close>

lemma forEach_prevFormBlocks_result:
  assumes "\<forall>block \<in> set ps. editableField env block \<longrightarrow>
             getBlockOrderById env state (block_id block) = Inr (f block)"
  shows "forEach_prevFormBlocks env state ps acc =
         Inr (acc @ map (\<lambda>block. withOrder block (f block)) (filter (editableField env) ps))"
  using assms
proof (induction ps arbitrary: acc)
  case Nil
  show ?case by simp
next
  case (Cons block rest)
  have test: "(case getBlockType env (name block) of None \<Rightarrow> False
               | Some bt \<Rightarrow> editable (supports bt)) = editableField env block"
    by (simp add: getBlockType_def editableField_def split: option.splits)
  from Cons.prems have rest: "\<forall>b \<in> set rest. editableField env b \<longrightarrow>
      getBlockOrderById env state (block_id b) = Inr (f b)"
    by simp
  show ?case
  proof (cases "editableField env block")
    case True
    with Cons.prems have "getBlockOrderById env state (block_id block) = Inr (f block)"
      by simp
    with True test Cons.IH [OF rest] show ?thesis by (simp add: Let_def)
  next
    case False
    with test Cons.IH [OF rest] show ?thesis by (simp add: Let_def)
  qed
qed

lemma map2_same: "map2 g xs (map f xs) = map (\<lambda>x. g x (f x)) xs"
  by (induction xs) auto

lemmas example_defs =
  exampleTypes_def exampleBlock_def exampleState_def exampleEnv_def

lemmas selector_defs =
  getBlockById_def getBlocks_def getEditableFields_def getBlockOrderById_def
  getPreviousEditableFieldsWithOrder_def getBlockType_def withOrder_def

subsection \<open>Unique ids\<close>

lemma find_distinct_id:
  "distinct (map f xs) \<Longrightarrow> y \<in> set xs \<Longrightarrow> find (\<lambda>x. f x = f y) xs = Some y"
  by (induction xs) (auto simp: image_iff)

lemma takeWhile_distinct_index:
  "distinct (map f xs) \<Longrightarrow> j < length xs \<Longrightarrow>
   length (takeWhile (\<lambda>x. f x \<noteq> f (xs ! j)) xs) = j"
proof (induction xs arbitrary: j)
  case Nil
  then show ?case by simp
next
  case (Cons x xs)
  show ?case
  proof (cases j)
    case 0
    then show ?thesis by simp
  next
    case (Suc k)
    with Cons.prems have k: "k < length xs" and d: "distinct (map f xs)"
      and nx: "f x \<notin> f ` set xs"
      by auto
    from k have "xs ! k \<in> set xs" by (rule nth_mem)
    with nx have "f x \<noteq> f (xs ! k)" by auto
    with Cons.IH [OF d k] Suc show ?thesis by simp
  qed
qed

lemma editable_orders_distinct:
  assumes st: "blockEditorState env = state"
    and reg: "allRegistered env (blocks state)"
    and dist: "distinct (map block_id (blocks state))"
    and j: "j < length (filter (editableField env) (blocks state))"
  shows "getBlockOrderById env state
           (block_id (filter (editableField env) (blocks state) ! j)) =
         Inr (OrderNumber (1 + int j))"
proof -
  let ?fs = "filter (editableField env) (blocks state)"
  let ?b = "?fs ! j"
  from j have mem: "?b \<in> set ?fs" by (rule nth_mem)
  then have inb: "?b \<in> set (blocks state)" and ed: "editableField env ?b" by auto
  from find_distinct_id [OF dist inb]
  have fb: "getBlockById state (block_id ?b) = Some ?b"
    by (simp add: getBlockById_def)
  from dist have "distinct (map block_id ?fs)" by (rule distinct_map_filter)
  from takeWhile_distinct_index [OF this j]
  have "length (takeWhile (\<lambda>x. block_id x \<noteq> block_id ?b) ?fs) = j" .
  with getBlockOrderById_editable [OF st reg fb ed] show ?thesis by simp
qed

subsection \<open>Memoisation\<close>

lemma createSelector_again:
  assumes "getDependants state' = getDependants state"
  shows "fst (createSelector selector getDependants
                (snd (createSelector selector getDependants memo state)) state') =
         fst (createSelector selector getDependants memo state)"
proof (cases memo)
  case None
  with assms show ?thesis by (simp add: createSelector_def Let_def)
next
  case (Some entry)
  obtain lastDependants val where "entry = (lastDependants, val)" by (cases entry)
  with Some assms show ?thesis by (simp add: createSelector_def Let_def)
qed

subsection \<open>The selector functions of the previous fields and of an unknown id\<close>

lemma previous_fields_selector_function:
  assumes st: "blockEditorState env = state"
    and reg: "allRegistered env (blocks state)"
    and present: "i \<in> block_id ` set (blocks state)"
  shows "\<exists>orders.
           getPreviousEditableFieldsWithOrder env state i =
             Inr (map2 withOrder
                    (filter (editableField env)
                       (takeWhile (\<lambda>block. block_id block \<noteq> i) (blocks state)))
                    orders) \<and>
           map (\<lambda>block. getBlockOrderById env state (block_id block))
             (filter (editableField env)
                (takeWhile (\<lambda>block. block_id block \<noteq> i) (blocks state))) =
             map Inr orders \<and>
           (distinct (map block_id (blocks state)) \<longrightarrow>
              orders = map (\<lambda>k. OrderNumber (1 + int k)) [0..<length orders])"
proof -
  let ?before = "takeWhile (\<lambda>block. block_id block \<noteq> i) (blocks state)"
  let ?prev = "filter (editableField env) ?before"
  define f where
    "f block = (case getBlockOrderById env state (block_id block) of
                  Inl e \<Rightarrow> Undefined | Inr ord \<Rightarrow> ord)" for block :: "'a FormBlock"
  have fo: "getBlockOrderById env state (block_id block) = Inr (f block)"
    if "block \<in> set (blocks state)" for block
  proof -
    from that have "block_id block \<in> block_id ` set (blocks state)" by simp
    from getBlockOrderById_returns [OF st reg this] show ?thesis
      by (auto simp: f_def)
  qed
  have sub: "set ?before \<subseteq> set (blocks state)"
    by (auto dest: set_takeWhileD)
  from present have "\<exists>x \<in> set (blocks state). block_id x = i" by auto
  then have idx: "findIndex (\<lambda>block. block_id block = i) (blocks state) = int (length ?before)"
    by (rule findIndex_takeWhile)
  have tk: "take (length ?before) (blocks state) = ?before"
    by (rule takeWhile_eq_take [symmetric])
  have loop: "forEach_prevFormBlocks env state ?before [] =
              Inr ([] @ map (\<lambda>block. withOrder block (f block)) ?prev)"
    by (rule forEach_prevFormBlocks_result) (use sub fo in auto)
  have res: "getPreviousEditableFieldsWithOrder env state i =
             Inr (map (\<lambda>block. withOrder block (f block)) ?prev)"
  proof (cases "length ?before = 0")
    case True
    then show ?thesis
      by (simp add: getPreviousEditableFieldsWithOrder_def getBlocks_def idx)
  next
    case False
    with loop show ?thesis
      by (simp add: getPreviousEditableFieldsWithOrder_def getBlocks_def idx tk)
  qed
  have ords: "map (\<lambda>block. getBlockOrderById env state (block_id block)) ?prev =
              map Inr (map f ?prev)"
    using sub fo by (auto simp: subset_iff)
  have uniq: "map f ?prev = map (\<lambda>k. OrderNumber (1 + int k)) [0..<length (map f ?prev)]"
    if dist: "distinct (map block_id (blocks state))"
  proof (rule nth_equalityI)
    show "length (map f ?prev) =
          length (map (\<lambda>k. OrderNumber (1 + int k)) [0..<length (map f ?prev)])"
      by simp
  next
    fix j
    assume "j < length (map f ?prev)"
    then have j: "j < length ?prev" by simp
    let ?fs = "filter (editableField env) (blocks state)"
    have "blocks state = ?before @ dropWhile (\<lambda>block. block_id block \<noteq> i) (blocks state)"
      by simp
    then have "?fs = filter (editableField env)
        (?before @ dropWhile (\<lambda>block. block_id block \<noteq> i) (blocks state))"
      by simp
    then have split: "?fs = ?prev @
        filter (editableField env) (dropWhile (\<lambda>block. block_id block \<noteq> i) (blocks state))"
      by (simp only: filter_append)
    from j have jl: "j < length ?fs" and same: "?fs ! j = ?prev ! j"
      by (subst split, simp)+ (simp add: nth_append)
    from j have "?prev ! j \<in> set ?prev" by (rule nth_mem)
    with sub have "?prev ! j \<in> set (blocks state)" by auto
    from fo [OF this] editable_orders_distinct [OF st reg dist jl] same
    have "f (?prev ! j) = OrderNumber (1 + int j)" by simp
    with j show "map f ?prev ! j =
        map (\<lambda>k. OrderNumber (1 + int k)) [0..<length (map f ?prev)] ! j"
      by simp
  qed
  show ?thesis
  proof (intro exI [of _ "map f ?prev"] conjI impI)
    show "getPreviousEditableFieldsWithOrder env state i =
          Inr (map2 withOrder ?prev (map f ?prev))"
      by (simp only: res map2_same)
    show "map (\<lambda>block. getBlockOrderById env state (block_id block)) ?prev =
          map Inr (map f ?prev)"
      by (rule ords)
    show "map f ?prev = map (\<lambda>k. OrderNumber (1 + int k)) [0..<length (map f ?prev)]"
      if "distinct (map block_id (blocks state))"
      using that by (rule uniq)
  qed
qed

lemma unknown_id_selector_functions:
  assumes "i \<notin> block_id ` set (blocks state)"
  shows "getBlockById state i = None \<and>
         getBlockOrderById env state i = Inr Undefined \<and>
         getPreviousEditableFieldsWithOrder env state i = Inr []"
proof -
  have a: "getBlockById state i = None"
    using assms by (simp add: getBlockById_def find_absent)
  have b: "getBlockOrderById env state i = Inr Undefined"
    by (simp add: getBlockOrderById_def a)
  have "findIndex (\<lambda>block. block_id block = i) (blocks state) = - 1"
    using assms by (rule findIndex_absent)
  then have c: "getPreviousEditableFieldsWithOrder env state i = Inr []"
    by (simp add: getPreviousEditableFieldsWithOrder_def getBlocks_def)
  from a b c show ?thesis by simp
qed

subsection \<open>The exported selectors under memoisations without stale results\<close>

lemma memosValid_empty: "memosValid env state emptyMemos"
  by (simp add: memosValid_def emptyMemos_def keptResults_def)

lemma keptResults_same: "keptResults (Some (dependants, results)) dependants = results"
  by (simp add: keptResults_def)

lemma keptResults_kept:
  "keptResults (Some (dependants, keptResults memo dependants)) dependants' k = Some v \<Longrightarrow>
   keptResults memo dependants' k = Some v"
  by (auto simp: keptResults_def split: option.splits if_splits)

lemma keptResults_added:
  "keptResults (Some (dependants, (keptResults memo dependants)(j \<mapsto> w))) dependants' k = Some v \<Longrightarrow>
   (dependants' = dependants \<and> k = j \<and> v = w) \<or> keptResults memo dependants' k = Some v"
  by (auto simp: keptResults_def split: option.splits if_splits)

lemma getBlocks_exported_valid:
  assumes "memosValid env state memos"
  shows "fst (getBlocks_exported memos state) = getBlocks state \<and>
         memosValid env state (snd (getBlocks_exported memos state))"
proof (cases "getBlocksMemo memos")
  case None
  with assms show ?thesis
    by (simp add: getBlocks_exported_def createSelector_def memosValid_def Let_def)
next
  case (Some entry)
  obtain dependants val where "entry = (dependants, val)" by (cases entry)
  with Some assms show ?thesis
    by (simp add: getBlocks_exported_def createSelector_def memosValid_def Let_def)
qed

lemma getBlockById_exported_valid:
  assumes "memosValid env state memos"
  shows "fst (getBlockById_exported memos state i) = getBlockById state i \<and>
         memosValid env state (snd (getBlockById_exported memos state i))"
proof -
  let ?kept = "keptResults (getBlockByIdMemo memos) (blockCacheToken state i)"
  from assms have old: "\<And>k v. keptResults (getBlockByIdMemo memos) (blockCacheToken state k) k = Some v
      \<Longrightarrow> v = getBlockById state k"
    by (simp add: memosValid_def)
  show ?thesis
  proof (cases "?kept i")
    case None
    have res: "getBlockById_exported memos state i =
        (getBlockById state i,
         memos\<lparr>getBlockByIdMemo := Some (blockCacheToken state i, ?kept(i \<mapsto> getBlockById state i))\<rparr>)"
      by (simp add: getBlockById_exported_def createSelectorArgs_def Let_def None)
    have "v = getBlockById state k"
      if "keptResults (Some (blockCacheToken state i, ?kept(i \<mapsto> getBlockById state i)))
            (blockCacheToken state k) k = Some v" for k v
      using keptResults_added [OF that] old by auto
    with assms show ?thesis
      unfolding res by (simp add: memosValid_def)
  next
    case (Some val)
    have res: "getBlockById_exported memos state i =
        (val, memos\<lparr>getBlockByIdMemo := Some (blockCacheToken state i, ?kept)\<rparr>)"
      by (simp add: getBlockById_exported_def createSelectorArgs_def Let_def Some)
    have "v = getBlockById state k"
      if "keptResults (Some (blockCacheToken state i, ?kept)) (blockCacheToken state k) k = Some v"
      for k v
      using keptResults_kept [OF that] old by auto
    with assms old [OF Some] show ?thesis
      unfolding res by (simp add: memosValid_def)
  qed
qed

lemma getEditableFields_exported_valid:
  assumes "memosValid env state memos"
  shows "fst (getEditableFields_exported env memos state) = getEditableFields env state \<and>
         memosValid env state (snd (getEditableFields_exported env memos state))"
  using getBlocks_exported_valid [OF assms]
  by (simp add: getEditableFields_exported_def getEditableFields_def split_beta Let_def)

lemma getBlockOrderById_exported_valid:
  assumes st: "blockEditorState env = state"
    and valid: "memosValid env state memos"
  shows "fst (getBlockOrderById_exported env memos state i) = getBlockOrderById env state i \<and>
         memosValid env state (snd (getBlockOrderById_exported env memos state i))"
proof -
  let ?m1 = "snd (getBlockById_exported memos state i)"
  from getBlockById_exported_valid [OF valid, of i]
  have f: "fst (getBlockById_exported memos state i) = getBlockById state i"
    and v1: "memosValid env state ?m1"
    by simp_all
  from getEditableFields_exported_valid [OF v1]
  have e: "fst (getEditableFields_exported env ?m1 state) = getEditableFields env state"
    and v2: "memosValid env state (snd (getEditableFields_exported env ?m1 state))"
    by simp_all
  show ?thesis
    using f v1 e v2
    by (simp add: getBlockOrderById_exported_def getBlockOrderById_def st split_beta Let_def
        split: option.splits sum.splits)
qed

lemma forEach_prevFormBlocks_exported_valid:
  assumes st: "blockEditorState env = state"
    and valid: "memosValid env state memos"
  shows "fst (forEach_prevFormBlocks_exported env memos state ps acc) =
           forEach_prevFormBlocks env state ps acc \<and>
         memosValid env state (snd (forEach_prevFormBlocks_exported env memos state ps acc))"
  using valid
proof (induction ps arbitrary: memos acc)
  case Nil
  then show ?case by simp
next
  case (Cons block rest)
  let ?call = "getBlockOrderById_exported env memos state (block_id block)"
  from getBlockOrderById_exported_valid [OF st Cons.prems, of "block_id block"]
  have f: "fst ?call = getBlockOrderById env state (block_id block)"
    and v: "memosValid env state (snd ?call)"
    by simp_all
  show ?case
  proof (cases "fst ?call")
    case (Inl e)
    with f v Cons.IH [OF Cons.prems] show ?thesis
      by (cases ?call) (auto simp: Let_def)
  next
    case (Inr ord)
    with f v Cons.IH [OF Cons.prems] Cons.IH [OF v] show ?thesis
      by (cases ?call) (auto simp: Let_def)
  qed
qed

lemma previousEditableFields_selector_valid:
  assumes st: "blockEditorState env = state"
    and valid: "memosValid env state memos"
  shows "fst (previousEditableFields_selector env memos state i) =
           getPreviousEditableFieldsWithOrder env state i \<and>
         memosValid env state (snd (previousEditableFields_selector env memos state i))"
proof -
  from getBlocks_exported_valid [OF valid]
  have b: "fst (getBlocks_exported memos state) = getBlocks state"
    and v1: "memosValid env state (snd (getBlocks_exported memos state))"
    by simp_all
  from forEach_prevFormBlocks_exported_valid [OF st v1] b v1 show ?thesis
    by (simp add: previousEditableFields_selector_def getPreviousEditableFieldsWithOrder_def
        split_beta Let_def)
qed

lemma memosValid_previous_update:
  assumes valid: "memosValid env state memos"
    and new: "\<And>k v. keptResults memo' (blockCacheTokens state) k = Some v \<Longrightarrow>
                getPreviousEditableFieldsWithOrder env state k = Inr v"
  shows "memosValid env state (memos\<lparr>getPreviousMemo := memo'\<rparr>)"
  using valid new by (simp add: memosValid_def)

lemma getPreviousEditableFieldsWithOrder_exported_valid:
  assumes st: "blockEditorState env = state"
    and valid: "memosValid env state memos"
  shows "fst (getPreviousEditableFieldsWithOrder_exported env memos state i) =
           getPreviousEditableFieldsWithOrder env state i \<and>
         memosValid env state (snd (getPreviousEditableFieldsWithOrder_exported env memos state i))"
proof -
  let ?deps = "blockCacheTokens state"
  let ?kept = "keptResults (getPreviousMemo memos) ?deps"
  let ?call = "previousEditableFields_selector env memos state i"
  from valid have old: "\<And>k v. keptResults (getPreviousMemo memos) ?deps k = Some v \<Longrightarrow>
      getPreviousEditableFieldsWithOrder env state k = Inr v"
    by (simp add: memosValid_def)
  have keep: "getPreviousEditableFieldsWithOrder env state k = Inr v"
    if "keptResults (Some (?deps, ?kept)) ?deps k = Some v" for k v
    using that old by (simp add: keptResults_same)
  show ?thesis
  proof (cases "?kept i")
    case (Some val)
    have res: "getPreviousEditableFieldsWithOrder_exported env memos state i =
        (Inr val, memos\<lparr>getPreviousMemo := Some (?deps, ?kept)\<rparr>)"
      by (simp add: getPreviousEditableFieldsWithOrder_exported_def Let_def Some)
    from memosValid_previous_update [OF valid keep] old [OF Some] show ?thesis
      unfolding res by simp
  next
    case None
    from previousEditableFields_selector_valid [OF st valid, of i]
    have f: "fst ?call = getPreviousEditableFieldsWithOrder env state i"
      and v1: "memosValid env state (snd ?call)"
      by simp_all
    show ?thesis
    proof (cases "fst ?call")
      case (Inl e)
      then have res: "getPreviousEditableFieldsWithOrder_exported env memos state i =
          (Inl e, (snd ?call)\<lparr>getPreviousMemo := Some (?deps, ?kept)\<rparr>)"
        by (cases ?call) (simp add: getPreviousEditableFieldsWithOrder_exported_def Let_def None)
      from memosValid_previous_update [OF v1 keep] f Inl show ?thesis
        unfolding res by simp
    next
      case (Inr v)
      then have res: "getPreviousEditableFieldsWithOrder_exported env memos state i =
          (Inr v, (snd ?call)\<lparr>getPreviousMemo := Some (?deps, ?kept(i \<mapsto> v))\<rparr>)"
        by (cases ?call) (simp add: getPreviousEditableFieldsWithOrder_exported_def Let_def None)
      have "getPreviousEditableFieldsWithOrder env state k = Inr w"
        if "keptResults (Some (?deps, ?kept(i \<mapsto> v))) ?deps k = Some w" for k w
        using that old f Inr by (auto simp: keptResults_same split: if_splits)
      from memosValid_previous_update [OF v1 this] f Inr show ?thesis
        unfolding res by simp
    qed
  qed
qed

lemmas exported_defs =
  emptyMemos_def keptResults_def createSelector_def createSelectorArgs_def blockCacheTokens_def
  blockCacheToken_def getBlocks_exported_def getBlockById_exported_def
  getEditableFields_exported_def getBlockOrderById_exported_def
  previousEditableFields_selector_def getPreviousEditableFieldsWithOrder_exported_def
  Let_def split_beta

section \<open>Properties of the selectors and of the renderer\<close>

subsection \<open>C1\<close>




subsection \<open>C2\<close>




subsection \<open>C3\<close>

text \<open>
  C3, as stated, fails, in two ways. With a fresh memoisation, the target D present and
  the editable block A before it, the selector raises, because computing the order of A
  evaluates the editable fields of the whole state and the block U, which stands after
  the target, has no registered type. And with every block name registered, the selector
  hands out a stale result: asked once while the registry was still empty it kept the
  empty sequence under the cache tokens and the id, and it returns that again once the
  types are registered, where the editable block A stands before D.
\<close>

theorem previous_fields_unregistered_or_stale_counterexample:
  "findIndex (\<lambda>block. block_id block = ''D'')
     (blocks (exampleState [exampleBlock ''A'' ''short-text'', exampleBlock ''D'' ''short-text'',
        exampleBlock ''U'' ''ghost''])) = 1 \<and>
   fst (getPreviousEditableFieldsWithOrder_exported
     (exampleEnv [exampleBlock ''A'' ''short-text'', exampleBlock ''D'' ''short-text'',
        exampleBlock ''U'' ''ghost''])
     emptyMemos
     (exampleState [exampleBlock ''A'' ''short-text'', exampleBlock ''D'' ''short-text'',
        exampleBlock ''U'' ''ghost'']) ''D'') = Inl TypeError \<and>
   allRegistered (exampleEnv [exampleBlock ''A'' ''short-text'', exampleBlock ''D'' ''short-text''])
     [exampleBlock ''A'' ''short-text'', exampleBlock ''D'' ''short-text''] \<and>
   editableField (exampleEnv [exampleBlock ''A'' ''short-text'', exampleBlock ''D'' ''short-text''])
     (exampleBlock ''A'' ''short-text'') \<and>
   fst (getPreviousEditableFieldsWithOrder_exported
     (exampleEnv [exampleBlock ''A'' ''short-text'', exampleBlock ''D'' ''short-text''])
     (snd (getPreviousEditableFieldsWithOrder_exported
        (exampleEmptyRegistry [exampleBlock ''A'' ''short-text'', exampleBlock ''D'' ''short-text''])
        emptyMemos
        (exampleState [exampleBlock ''A'' ''short-text'', exampleBlock ''D'' ''short-text''])
        ''D''))
     (exampleState [exampleBlock ''A'' ''short-text'', exampleBlock ''D'' ''short-text''])
     ''D'') = Inr []"
  by (simp add: exported_defs selector_defs example_defs exampleEmptyRegistry_def
      allRegistered_def editableField_def)

text \<open>
  C3 (amended): for every state, held by the store, in which every block name is
  registered, every id present in the block sequence and memoisations that hold no
  stale result for the registry and the state (as those of a fresh module do, and
  those left by calls on this registry and state),
  \<open>getPreviousEditableFieldsWithOrder\<close> returns exactly the editable fields that stand
  strictly before the (first) block with that id, in the order of the sequence, each
  augmented with the order \<open>getBlockOrderById\<close> produces for its id; where the ids of
  the sequence are unique these orders are 1, 2, 3, ... in turn.
\<close>

theorem previous_editable_fields_with_order:
  assumes st: "blockEditorState env = state"
    and reg: "allRegistered env (blocks state)"
    and present: "i \<in> block_id ` set (blocks state)"
    and valid: "memosValid env state memos"
  shows "\<exists>orders.
           fst (getPreviousEditableFieldsWithOrder_exported env memos state i) =
             Inr (map2 withOrder
                    (filter (editableField env)
                       (takeWhile (\<lambda>block. block_id block \<noteq> i) (blocks state)))
                    orders) \<and>
           map (\<lambda>block. fst (getBlockOrderById_exported env memos state (block_id block)))
             (filter (editableField env)
                (takeWhile (\<lambda>block. block_id block \<noteq> i) (blocks state))) =
             map Inr orders \<and>
           (distinct (map block_id (blocks state)) \<longrightarrow>
              orders = map (\<lambda>k. OrderNumber (1 + int k)) [0..<length orders])"
proof -
  have r: "fst (getPreviousEditableFieldsWithOrder_exported env memos state i) =
           getPreviousEditableFieldsWithOrder env state i"
    using getPreviousEditableFieldsWithOrder_exported_valid [OF st valid] by simp
  have o: "fst (getBlockOrderById_exported env memos state k) = getBlockOrderById env state k"
    for k
    using getBlockOrderById_exported_valid [OF st valid] by simp
  from previous_fields_selector_function [OF st reg present] show ?thesis
    unfolding r o .
qed

text \<open>
  The blocks A (editable), B (not editable), C (editable), D (the target), asked twice:
  the second call, answered from the memoisation the first has filled, returns A and C
  with the orders 1 and 2.
\<close>

theorem previous_editable_fields_with_order_witness:
  "blockEditorState (exampleEnv exampleABCD) = exampleState exampleABCD \<and>
   allRegistered (exampleEnv exampleABCD) (blocks (exampleState exampleABCD)) \<and>
   ''D'' \<in> block_id ` set (blocks (exampleState exampleABCD)) \<and>
   distinct (map block_id (blocks (exampleState exampleABCD))) \<and>
   memosValid (exampleEnv exampleABCD) (exampleState exampleABCD)
     (snd (getPreviousEditableFieldsWithOrder_exported (exampleEnv exampleABCD) emptyMemos
        (exampleState exampleABCD) ''D'')) \<and>
   fst (getPreviousEditableFieldsWithOrder_exported (exampleEnv exampleABCD)
     (snd (getPreviousEditableFieldsWithOrder_exported (exampleEnv exampleABCD) emptyMemos
        (exampleState exampleABCD) ''D''))
     (exampleState exampleABCD) ''D'') =
     Inr [withOrder (exampleBlock ''A'' ''short-text'') (OrderNumber 1),
          withOrder (exampleBlock ''C'' ''short-text'') (OrderNumber 2)]"
proof -
  let ?memos = "snd (getPreviousEditableFieldsWithOrder_exported (exampleEnv exampleABCD)
     emptyMemos (exampleState exampleABCD) ''D'')"
  have h1: "blockEditorState (exampleEnv exampleABCD) = exampleState exampleABCD"
    by (simp add: exampleEnv_def)
  have h2: "allRegistered (exampleEnv exampleABCD) (blocks (exampleState exampleABCD))"
    by (simp add: allRegistered_def example_defs exampleABCD_def exampleABC_def)
  have h3: "''D'' \<in> block_id ` set (blocks (exampleState exampleABCD))"
    by (simp add: example_defs exampleABCD_def exampleABC_def)
  have h4: "distinct (map block_id (blocks (exampleState exampleABCD)))"
    by (simp add: example_defs exampleABCD_def exampleABC_def)
  have h5: "memosValid (exampleEnv exampleABCD) (exampleState exampleABCD) ?memos"
    using getPreviousEditableFieldsWithOrder_exported_valid [OF h1 memosValid_empty] by simp
  have prev: "filter (editableField (exampleEnv exampleABCD))
                (takeWhile (\<lambda>block. block_id block \<noteq> ''D'') (blocks (exampleState exampleABCD))) =
              [exampleBlock ''A'' ''short-text'', exampleBlock ''C'' ''short-text'']"
    by (simp add: editableField_def example_defs exampleABCD_def exampleABC_def)
  note t = previous_editable_fields_with_order [OF h1 h2 h3 h5, unfolded prev]
  from t obtain orders where
    r: "fst (getPreviousEditableFieldsWithOrder_exported (exampleEnv exampleABCD) ?memos
          (exampleState exampleABCD) ''D'') =
          Inr (map2 withOrder [exampleBlock ''A'' ''short-text'', exampleBlock ''C'' ''short-text'']
                 orders)"
    and l: "map (\<lambda>block. fst (getBlockOrderById_exported (exampleEnv exampleABCD) ?memos
                   (exampleState exampleABCD) (block_id block)))
              [exampleBlock ''A'' ''short-text'', exampleBlock ''C'' ''short-text''] =
            map Inr orders"
    and u: "distinct (map block_id (blocks (exampleState exampleABCD))) \<longrightarrow>
            orders = map (\<lambda>k. OrderNumber (1 + int k)) [0..<length orders]"
    by (elim exE conjE)
  from arg_cong [OF l, of length] have n: "length orders = 2"
    by simp
  from u h4 have "orders = map (\<lambda>k. OrderNumber (1 + int k)) [0..<length orders]"
    by simp
  then have "orders = [OrderNumber 1, OrderNumber 2]"
    unfolding n by (simp add: numeral_2_eq_2)
  with r h1 h2 h3 h4 h5 show ?thesis by simp
qed

subsection \<open>C4\<close>

text \<open>
  C4, as stated, fails: \<open>getBlockById\<close> is memoised on the cache token of the id alone.
  Asked for A in a state that holds the block A, and then in a state from which A is
  gone while the cache still has the token of A, it returns the block A for an id that
  no block of the sequence has, and \<open>getBlockOrderById\<close> returns an order for it.
\<close>

theorem unknown_id_stale_block_counterexample:
  "''A'' \<notin> block_id ` set (blocks (exampleCachedState [])) \<and>
   fst (getBlockById_exported
     (snd (getBlockById_exported emptyMemos
        (exampleCachedState [exampleBlock ''A'' ''short-text'']) ''A''))
     (exampleCachedState []) ''A'') = Some (exampleBlock ''A'' ''short-text'') \<and>
   fst (getBlockOrderById_exported (exampleCachedEnv [])
     (snd (getBlockById_exported emptyMemos
        (exampleCachedState [exampleBlock ''A'' ''short-text'']) ''A''))
     (exampleCachedState []) ''A'') = Inr (OrderNumber 0)"
  by (simp add: exported_defs selector_defs example_defs exampleCachedState_def
      exampleCachedEnv_def)

text \<open>
  C4 (amended): for every state, every id that no block of the sequence has and
  memoisations that hold no stale result for the state (as those of a fresh module do,
  and those left by calls on this registry and state), nothing is raised:
  \<open>getBlockById\<close> and \<open>getBlockOrderById\<close> return \<open>undefined\<close> and
  \<open>getPreviousEditableFieldsWithOrder\<close> returns the empty sequence, whatever the
  registry holds.
\<close>

theorem unknown_id_signalled_by_value:
  assumes absent: "i \<notin> block_id ` set (blocks state)"
    and valid: "memosValid env state memos"
  shows "fst (getBlockById_exported memos state i) = None \<and>
         fst (getBlockOrderById_exported env memos state i) = Inr Undefined \<and>
         fst (getPreviousEditableFieldsWithOrder_exported env memos state i) = Inr []"
proof -
  note pure = unknown_id_selector_functions [OF absent, of env]
  have a: "fst (getBlockById_exported memos state i) = None"
    using getBlockById_exported_valid [OF valid, of i] pure by simp
  have b: "fst (getBlockOrderById_exported env memos state i) = Inr Undefined"
    using a by (simp add: getBlockOrderById_exported_def split_beta)
  have c: "fst (getPreviousEditableFieldsWithOrder_exported env memos state i) = Inr []"
  proof (cases "keptResults (getPreviousMemo memos) (blockCacheTokens state) i")
    case (Some val)
    with valid have "getPreviousEditableFieldsWithOrder env state i = Inr val"
      by (simp add: memosValid_def)
    with pure have "val = []" by simp
    with Some show ?thesis
      by (simp add: getPreviousEditableFieldsWithOrder_exported_def Let_def)
  next
    case None
    from getBlocks_exported_valid [OF valid]
    have "fst (getBlocks_exported memos state) = blocks state"
      by (simp add: getBlocks_def)
    moreover have "findIndex (\<lambda>block. block_id block = i) (blocks state) = - 1"
      using absent by (rule findIndex_absent)
    ultimately have "fst (previousEditableFields_selector env memos state i) = Inr []"
      by (simp add: previousEditableFields_selector_def split_beta Let_def)
    with None show ?thesis
      by (cases "previousEditableFields_selector env memos state i")
        (simp add: getPreviousEditableFieldsWithOrder_exported_def Let_def)
  qed
  from a b c show ?thesis by simp
qed

text \<open>
  The id \<open>missing\<close> in a state that even holds a block of an unregistered type, asked
  a second time, after a first call has filled the memoisation.
\<close>

theorem unknown_id_signalled_by_value_witness:
  "''missing'' \<notin> block_id `
     set (blocks (exampleState [exampleBlock ''A'' ''short-text'', exampleBlock ''U'' ''ghost''])) \<and>
   memosValid (exampleEnv [exampleBlock ''A'' ''short-text'', exampleBlock ''U'' ''ghost''])
     (exampleState [exampleBlock ''A'' ''short-text'', exampleBlock ''U'' ''ghost''])
     (snd (getBlockById_exported emptyMemos
        (exampleState [exampleBlock ''A'' ''short-text'', exampleBlock ''U'' ''ghost''])
        ''missing'')) \<and>
   fst (getBlockById_exported
     (snd (getBlockById_exported emptyMemos
        (exampleState [exampleBlock ''A'' ''short-text'', exampleBlock ''U'' ''ghost''])
        ''missing''))
     (exampleState [exampleBlock ''A'' ''short-text'', exampleBlock ''U'' ''ghost''])
     ''missing'') = None \<and>
   fst (getBlockOrderById_exported
     (exampleEnv [exampleBlock ''A'' ''short-text'', exampleBlock ''U'' ''ghost''])
     (snd (getBlockById_exported emptyMemos
        (exampleState [exampleBlock ''A'' ''short-text'', exampleBlock ''U'' ''ghost''])
        ''missing''))
     (exampleState [exampleBlock ''A'' ''short-text'', exampleBlock ''U'' ''ghost''])
     ''missing'') = Inr Undefined \<and>
   fst (getPreviousEditableFieldsWithOrder_exported
     (exampleEnv [exampleBlock ''A'' ''short-text'', exampleBlock ''U'' ''ghost''])
     (snd (getBlockById_exported emptyMemos
        (exampleState [exampleBlock ''A'' ''short-text'', exampleBlock ''U'' ''ghost''])
        ''missing''))
     (exampleState [exampleBlock ''A'' ''short-text'', exampleBlock ''U'' ''ghost''])
     ''missing'') = Inr []"
proof -
  let ?bs = "[exampleBlock ''A'' ''short-text'', exampleBlock ''U'' ''ghost'']"
  let ?memos = "snd (getBlockById_exported emptyMemos (exampleState ?bs) ''missing'')"
  have h1: "''missing'' \<notin> block_id ` set (blocks (exampleState ?bs))"
    by (simp add: example_defs)
  have h2: "memosValid (exampleEnv ?bs) (exampleState ?bs) ?memos"
    by (rule conjunct2 [OF getBlockById_exported_valid [OF memosValid_empty]])
  from unknown_id_signalled_by_value [OF h1 h2] h1 h2 show ?thesis by simp
qed

subsection \<open>C5\<close>

text \<open>
  C5: whenever the registry has no entry for the name of some block of the state,
  \<open>getEditableFields\<close> raises a \<open>TypeError\<close> (it reads \<open>.supports\<close> of the absent
  block type), and so does \<open>getBlockOrderById\<close>, called through the store on that state
  for any id of the sequence; such states exist.
\<close>

theorem unregistered_name_raises:
  assumes "block \<in> set (blocks state)"
    and "getBlockTypes env (name block) = None"
    and "blockEditorState env = state"
    and "i \<in> block_id ` set (blocks state)"
  shows "getEditableFields env state = Inl TypeError \<and>
         getBlockOrderById env state i = Inl TypeError"
  using getEditableFields_unregistered [OF assms(1,2)]
    getBlockOrderById_unregistered [OF assms(3,1,2,4)]
  by simp

theorem unregistered_name_raises_witness:
  "exampleBlock ''U'' ''ghost'' \<in> set (blocks (exampleState [exampleBlock ''U'' ''ghost''])) \<and>
   getBlockTypes (exampleEnv [exampleBlock ''U'' ''ghost'']) (name (exampleBlock ''U'' ''ghost'')) =
     None \<and>
   blockEditorState (exampleEnv [exampleBlock ''U'' ''ghost'']) =
     exampleState [exampleBlock ''U'' ''ghost''] \<and>
   ''U'' \<in> block_id ` set (blocks (exampleState [exampleBlock ''U'' ''ghost''])) \<and>
   getEditableFields (exampleEnv [exampleBlock ''U'' ''ghost''])
     (exampleState [exampleBlock ''U'' ''ghost'']) = Inl TypeError \<and>
   getBlockOrderById (exampleEnv [exampleBlock ''U'' ''ghost''])
     (exampleState [exampleBlock ''U'' ''ghost'']) ''U'' = Inl TypeError"
proof -
  let ?bs = "[exampleBlock ''U'' ''ghost'']"
  have h1: "exampleBlock ''U'' ''ghost'' \<in> set (blocks (exampleState ?bs))"
    by (simp add: exampleState_def)
  have h2: "getBlockTypes (exampleEnv ?bs) (name (exampleBlock ''U'' ''ghost'')) = None"
    by (simp add: example_defs)
  have h3: "blockEditorState (exampleEnv ?bs) = exampleState ?bs"
    by (simp add: exampleEnv_def)
  have h4: "''U'' \<in> block_id ` set (blocks (exampleState ?bs))"
    by (simp add: example_defs)
  from unregistered_name_raises [OF h1 h2 h3 h4] h1 h2 h3 h4 show ?thesis by simp
qed

subsection \<open>C6\<close>



subsection \<open>C7\<close>

text \<open>
  C7: for every node, the renderer dispatches on the type tag. A node of type \<open>link\<close>
  renders an anchor with the node's \<open>url\<close> as \<open>href\<close> around the children; a node of
  type \<open>mergeTag\<close> renders the merge-tag component, handed the node, the merge tags,
  the editor, the path and \<open>null\<close> for the children; every other type renders a
  paragraph around the children.
\<close>

theorem Element_dispatch:
  "(type element = ''link'' \<longrightarrow>
      fst (Element findPath attrs children element editor mergeTags) =
        Anchor attrs (url element) children) \<and>
   (type element = ''mergeTag'' \<longrightarrow>
      fst (Element findPath attrs children element editor mergeTags) =
        MergeTagComponent element mergeTags editor (findPath editor element) attrs None) \<and>
   (type element \<noteq> ''link'' \<and> type element \<noteq> ''mergeTag'' \<longrightarrow>
      fst (Element findPath attrs children element editor mergeTags) =
        Paragraph attrs children)"
  by (simp add: Element_def Let_def)

theorem Element_dispatch_witness:
  "fst (Element exampleFindPath (1 :: nat) ''text'' \<lparr>type = ''link'', url = Some ''https://x''\<rparr>
          () ''tags'') =
     Anchor 1 (Some ''https://x'') ''text'' \<and>
   fst (Element exampleFindPath (1 :: nat) ''text'' \<lparr>type = ''mergeTag'', url = None\<rparr>
          () ''tags'') =
     MergeTagComponent \<lparr>type = ''mergeTag'', url = None\<rparr> ''tags'' () [0] 1 None \<and>
   fst (Element exampleFindPath (1 :: nat) ''text'' \<lparr>type = ''paragraph'', url = None\<rparr>
          () ''tags'') =
     Paragraph 1 ''text''"
  using
    Element_dispatch [of "\<lparr>type = ''link'', url = Some ''https://x''\<rparr>" exampleFindPath
      "1 :: nat" "''text''" "()" "''tags''"]
    Element_dispatch [of "\<lparr>type = ''mergeTag'', url = None\<rparr>" exampleFindPath
      "1 :: nat" "''text''" "()" "''tags''"]
    Element_dispatch [of "\<lparr>type = ''paragraph'', url = None\<rparr>" exampleFindPath
      "1 :: nat" "''text''" "()" "''tags''"]
  by (simp add: exampleFindPath_def)

subsection \<open>C8\<close>

text \<open>
  C8, as stated, fails: rendering a link node invokes \<open>findPath\<close>. The call stands
  before the dispatch on the type tag.
\<close>

theorem Element_link_calls_findPath_counterexample:
  "snd (Element exampleFindPath (1 :: nat) ''text'' \<lparr>type = ''link'', url = Some ''https://x''\<rparr>
          () ''tags'') =
     [((), \<lparr>type = ''link'', url = Some ''https://x''\<rparr>)]"
  by (simp add: Element_def Let_def)

text \<open>
  C8 (amended): the renderer invokes \<open>findPath\<close> exactly once for every node, on the
  editor and the node, whatever the type tag; the path it returns is used only when
  rendering merge-tag nodes: for every node whose type is not \<open>mergeTag\<close> the rendered
  element is the same whatever \<open>findPath\<close> returns.
\<close>

theorem Element_findPath_once_and_used_for_mergeTag_only:
  "snd (Element findPath attrs children element editor mergeTags) = [(editor, element)] \<and>
   (type element \<noteq> ''mergeTag'' \<longrightarrow>
      fst (Element findPath attrs children element editor mergeTags) =
      fst (Element findPath' attrs children element editor mergeTags))"
  by (simp add: Element_def Let_def)

theorem Element_findPath_once_and_used_for_mergeTag_only_witness:
  "snd (Element exampleFindPath (1 :: nat) ''text'' \<lparr>type = ''paragraph'', url = None\<rparr>
          () ''tags'') =
     [((), \<lparr>type = ''paragraph'', url = None\<rparr>)] \<and>
   type \<lparr>type = ''paragraph'', url = None\<rparr> \<noteq> ''mergeTag'' \<and>
   fst (Element exampleFindPath (1 :: nat) ''text'' \<lparr>type = ''paragraph'', url = None\<rparr>
          () ''tags'') =
   fst (Element (\<lambda>editor element. [1, 2]) (1 :: nat) ''text''
          \<lparr>type = ''paragraph'', url = None\<rparr> () ''tags'')"
  using
    Element_findPath_once_and_used_for_mergeTag_only
      [of exampleFindPath "1 :: nat" "''text''" "\<lparr>type = ''paragraph'', url = None\<rparr>"
        "()" "''tags''" "\<lambda>editor element. [1, 2]"]
  by simp

subsection \<open>C9\<close>

text \<open>
  C9: for every state and every content of the memoisation, a call of \<open>getBlocks\<close> and
  the next call return the identical reference when no block's cache token has changed
  between them: the key is the list of the cache tokens of the blocks, in order, so
  this holds for the same state called twice and for any second state with the same
  token list.
\<close>

theorem getBlocks_memoized_same_reference:
  fixes state state' :: "'a BlockEditorState"
  assumes "blockCacheTokens state' = blockCacheTokens state"
  shows "fst (getBlocks_memoized (snd (getBlocks_memoized memo state)) state') =
           fst (getBlocks_memoized memo state) \<and>
         fst (getBlocks_memoized (snd (getBlocks_memoized memo state)) state) =
           fst (getBlocks_memoized memo state)"
proof -
  have "fst (createSelector blocksRef blockCacheTokens
               (snd (createSelector blocksRef blockCacheTokens memo state)) state') =
        fst (createSelector blocksRef blockCacheTokens memo state)"
    using assms by (rule createSelector_again)
  moreover
  have "fst (createSelector blocksRef blockCacheTokens
               (snd (createSelector blocksRef blockCacheTokens memo state)) state) =
        fst (createSelector blocksRef blockCacheTokens memo state)"
    by (rule createSelector_again) (rule refl)
  ultimately show ?thesis
    by (simp add: getBlocks_memoized_def)
qed

text \<open>
  Two calls on one state whose array has the address 7, and a third on a state with
  the same tokens and another array: all three return the address 7.
\<close>

theorem getBlocks_memoized_same_reference_witness:
  "blockCacheTokens
     \<lparr>blocks = [exampleBlock ''A'' ''short-text''], blocksRef = 8,
       cache = Some [''A'' \<mapsto> 3], currentBlockId = Some ''A''\<rparr> =
   blockCacheTokens
     \<lparr>blocks = [exampleBlock ''A'' ''short-text''], blocksRef = 7,
       cache = Some [''A'' \<mapsto> 3], currentBlockId = None\<rparr> \<and>
   fst (getBlocks_memoized None
     \<lparr>blocks = [exampleBlock ''A'' ''short-text''], blocksRef = 7,
       cache = Some [''A'' \<mapsto> 3], currentBlockId = None\<rparr>) = 7 \<and>
   fst (getBlocks_memoized
     (snd (getBlocks_memoized None
        \<lparr>blocks = [exampleBlock ''A'' ''short-text''], blocksRef = 7,
          cache = Some [''A'' \<mapsto> 3], currentBlockId = None\<rparr>))
     \<lparr>blocks = [exampleBlock ''A'' ''short-text''], blocksRef = 8,
       cache = Some [''A'' \<mapsto> 3], currentBlockId = Some ''A''\<rparr>) = 7"
proof -
  let ?s = "\<lparr>blocks = [exampleBlock ''A'' ''short-text''], blocksRef = 7,
       cache = Some [''A'' \<mapsto> 3], currentBlockId = None\<rparr>"
  let ?s' = "\<lparr>blocks = [exampleBlock ''A'' ''short-text''], blocksRef = 8,
       cache = Some [''A'' \<mapsto> 3], currentBlockId = Some ''A''\<rparr>"
  have h: "blockCacheTokens ?s' = blockCacheTokens ?s"
    by (simp add: blockCacheTokens_def)
  have first: "fst (getBlocks_memoized None ?s) = 7"
    by (simp add: getBlocks_memoized_def createSelector_def Let_def)
  from getBlocks_memoized_same_reference [OF h, of None] h first show ?thesis
    by simp
qed

subsection \<open>C10\<close>

text \<open>
  C10: the guard \<open>blockType?.supports?.editable\<close> does not keep the selector from
  failing. With the blocks Q1 (editable), X (of an unregistered type) and Q2 (the
  target), the guard passes Q1, whose order is then computed by \<open>getBlockOrderById\<close>;
  that evaluates \<open>getEditableFields\<close>, which raises on X. Only where no block before
  the target is editable is X passed over in silence, as with the blocks X and Q2.
\<close>

theorem previous_fields_raise_despite_guard:
  "getPreviousEditableFieldsWithOrder
     (exampleEnv [exampleBlock ''Q1'' ''short-text'', exampleBlock ''X'' ''ghost'',
        exampleBlock ''Q2'' ''short-text''])
     (exampleState [exampleBlock ''Q1'' ''short-text'', exampleBlock ''X'' ''ghost'',
        exampleBlock ''Q2'' ''short-text'']) ''Q2'' = Inl TypeError \<and>
   getPreviousEditableFieldsWithOrder
     (exampleEnv [exampleBlock ''X'' ''ghost'', exampleBlock ''Q2'' ''short-text''])
     (exampleState [exampleBlock ''X'' ''ghost'', exampleBlock ''Q2'' ''short-text'']) ''Q2'' =
     Inr []"
  by (simp add: selector_defs example_defs)

end
